theory Spec2Isabelle
  imports Main "HOL-Library.Multiset"
begin

section \<open>The record base abstraction of core/models.py\<close>

text \<open>
  The module declares an abstract Django model \<open>BaseModel\<close> (soft deletion, an external
  id, audit logging) and four concrete models built on it. The embedding below follows
  the Python text function by function. What Python does implicitly is written out:
  \<^item> a method mutates \<open>self\<close> and the database, so a method is a function from the
    instance and the world to an outcome, the instance afterwards and the world afterwards;
    the mutations made before an exception is raised stay visible, as in Python;
  \<^item> an exception is the \<open>Inl\<close> branch of the outcome;
  \<^item> \<open>random.choice\<close> and \<open>timezone.now\<close> read an oracle held by the world (an
    arbitrary sequence of readings and the number of readings consumed so far);
  \<^item> Python bounds the depth of recursion, so the recursion of
    \<open>generate_unique_ext\<close> ends with \<open>RecursionError\<close> once the frames that are left
    (\<open>recursion_limit\<close>) are used up.
\<close>

subsection \<open>Data\<close>

datatype model_class = Temple | TempleGalleryImage | ArchitectureFeature | Product

text \<open>The exceptions that the modelled code can raise.\<close>

datatype error =
    ValueError string
  | AttributeError
  | IntegrityError
  | RecursionError

text \<open>\<open>ADDITION\<close>, \<open>CHANGE\<close> and \<open>DELETION\<close> of \<open>django.contrib.admin.models\<close>.\<close>

datatype action_flag = ADDITION | CHANGE | DELETION

text \<open>
  An instance of a concrete model, with the fields of \<open>BaseModel\<close>. \<open>pk\<close> is the
  \<open>id\<close> column (\<open>None\<close> until the first insert), \<open>cls\<close> is \<open>self.__class__\<close>, and
  \<open>label\<close> is what \<open>__str__\<close> returns; the other columns of the concrete models play
  no part in the methods of the base and are left out. Users are identified by their
  primary key, times by a natural number.
\<close>

record base_model =
  pk :: "nat option"
  cls :: model_class
  label :: string
  uid :: nat
  ext_id :: "string option"
  created_at :: "nat option"
  updated_at :: "nat option"
  deleted_at :: "nat option"
  created_user :: "nat option"
  updated_user :: "nat option"

text \<open>
  The dictionary that \<open>log_action\<close> builds; Django stores its \<open>str\<close> in the
  \<open>change_message\<close> column.
\<close>

record change_message =
  message :: string
  is_admin :: bool
  code :: "string option"

text \<open>
  A row of \<open>LogEntry\<close>. \<open>object_id\<close> holds the primary key the instance had when the
  entry was written (\<open>None\<close> for an instance that was never saved).
\<close>

record log_entry =
  action_time :: nat
  user_id :: nat
  content_type :: model_class
  object_id :: "nat option"
  object_repr :: string
  action_flag :: action_flag
  change_message :: change_message

text \<open>
  The world: one table per concrete model (\<open>BaseModel\<close> is abstract, so each concrete
  model has a table, an id sequence and a uniqueness constraint of its own), the table of
  \<open>LogEntry\<close>, the two oracles and the recursion depth that is left.
\<close>

record world =
  tables :: "model_class \<Rightarrow> base_model list"
  next_id :: "model_class \<Rightarrow> nat"
  log_entries :: "log_entry list"
  clock :: "nat \<Rightarrow> nat"
  clock_reads :: nat
  rng :: "nat \<Rightarrow> nat"
  rng_reads :: nat
  recursion_limit :: nat

type_synonym 'a outcome = "(error + 'a) \<times> base_model \<times> world"

subsection \<open>Oracles\<close>

definition timezone_now :: "world \<Rightarrow> nat \<times> world" where
  "timezone_now st = (clock st (clock_reads st), st\<lparr>clock_reads := Suc (clock_reads st)\<rparr>)"

text \<open>\<open>string.ascii_lowercase + string.digits\<close>\<close>

definition alphabet :: string where
  "alphabet = ''abcdefghijklmnopqrstuvwxyz0123456789''"

text \<open>
  \<open>random.choice(seq)\<close> returns \<open>seq[k]\<close> for a random \<open>k\<close> below \<open>len(seq)\<close>. It raises
  on an empty sequence; the only sequence it is given here is \<open>alphabet\<close>.
\<close>

definition random_choice :: "'a list \<Rightarrow> world \<Rightarrow> 'a \<times> world" where
  "random_choice xs st =
     (xs ! (rng st (rng_reads st) mod length xs), st\<lparr>rng_reads := Suc (rng_reads st)\<rparr>)"

subsection \<open>Managers\<close>

text \<open>The key of \<open>order_by('id')\<close>; every stored row has an id.\<close>

definition row_id :: "base_model \<Rightarrow> nat" where
  "row_id r = (case pk r of None \<Rightarrow> 0 | Some i \<Rightarrow> i)"

text \<open>
  \<open>all_objects = models.Manager()\<close>: every row of the model's table, in the order of
  \<open>Meta.ordering = ['id']\<close> that each concrete model declares.
\<close>

definition all_objects :: "world \<Rightarrow> model_class \<Rightarrow> base_model list" where
  "all_objects st c = sort_key row_id (tables st c)"

text \<open>
  \<open>objects = SoftDeleteManager()\<close>, whose \<open>get_queryset\<close> is
  \<open>super().get_queryset().filter(deleted_at__isnull=True).order_by('id')\<close>.
\<close>

definition objects :: "world \<Rightarrow> model_class \<Rightarrow> base_model list" where
  "objects st c = sort_key row_id (filter (\<lambda>r. deleted_at r = None) (tables st c))"

subsection \<open>External ids\<close>

text \<open>
  \<open>generate_ext(length)\<close> joins \<open>length\<close> random choices from the alphabet;
  \<open>range\<close> of a negative number is empty.
\<close>

fun generate_chars :: "nat \<Rightarrow> world \<Rightarrow> string \<times> world" where
  "generate_chars 0 st = ([], st)"
| "generate_chars (Suc n) st =
     (case random_choice alphabet st of (c, st1) \<Rightarrow>
        (case generate_chars n st1 of (s, st2) \<Rightarrow> (c # s, st2)))"

definition generate_ext :: "int \<Rightarrow> world \<Rightarrow> string \<times> world" where
  "generate_ext len st = generate_chars (nat len) st"

text \<open>
  \<open>generate_unique_ext(instance, length)\<close>. The body of
  \<open>while not ...exists(): return ext_id\<close> returns at once, so the loop is a
  conditional: when no row of \<open>instance.__class__.objects\<close> (the soft-delete manager of
  the instance's own model) has the candidate as its \<open>ext_id\<close>, the candidate is
  returned; otherwise the function calls itself. The first argument counts the frames
  that are left.
\<close>

fun generate_unique_ext_rec :: "nat \<Rightarrow> base_model \<Rightarrow> int \<Rightarrow> world \<Rightarrow> (error + string) \<times> world" where
  "generate_unique_ext_rec 0 inst len st = (Inl RecursionError, st)"
| "generate_unique_ext_rec (Suc d) inst len st =
     (case generate_ext len st of (candidate, st1) \<Rightarrow>
        if \<not> list_ex (\<lambda>r. ext_id r = Some candidate) (objects st1 (cls inst))
        then (Inr candidate, st1)
        else generate_unique_ext_rec d inst len st1)"

definition generate_unique_ext :: "base_model \<Rightarrow> int \<Rightarrow> world \<Rightarrow> (error + string) \<times> world" where
  "generate_unique_ext inst len st = generate_unique_ext_rec (recursion_limit st) inst len st"

subsection \<open>Saving\<close>

text \<open>Python's \<open>not self.ext_id\<close>: true of \<open>None\<close> and of the empty string.\<close>

definition unset :: "string option \<Rightarrow> bool" where
  "unset e = (case e of None \<Rightarrow> True | Some s \<Rightarrow> s = [])"

text \<open>
  \<open>unique=True\<close> on \<open>ext_id\<close>: the table refuses a row whose \<open>ext_id\<close> another row
  of the same table has.
\<close>

definition ext_id_taken :: "base_model \<Rightarrow> base_model list \<Rightarrow> bool" where
  "ext_id_taken inst rows = list_ex (\<lambda>r. pk r \<noteq> pk inst \<and> ext_id r = ext_id inst) rows"

text \<open>
  \<open>INSERT\<close>: \<open>auto_now_add\<close> and \<open>auto_now\<close> stamp \<open>created_at\<close> and
  \<open>updated_at\<close>, an instance without a primary key takes the next id of its table's
  sequence, and the table refuses a second row with the same primary key or the same
  \<open>ext_id\<close>.
\<close>

definition insert_row :: "base_model \<Rightarrow> world \<Rightarrow> unit outcome" where
  "insert_row inst st =
     (case timezone_now st of (t1, st1) \<Rightarrow>
      case timezone_now st1 of (t2, st2) \<Rightarrow>
        let c = cls inst;
            i = (case pk inst of None \<Rightarrow> next_id st2 c | Some j \<Rightarrow> j);
            inst1 = inst\<lparr>created_at := Some t1, updated_at := Some t2\<rparr>;
            inst2 = inst1\<lparr>pk := Some i\<rparr>
        in if list_ex (\<lambda>r. pk r = Some i) (tables st2 c) \<or> ext_id_taken inst2 (tables st2 c)
           then (Inl IntegrityError, inst1, st2)
           else (Inr (), inst2,
                 st2\<lparr>tables := (tables st2)(c := tables st2 c @ [inst2]),
                     next_id := (next_id st2)(c := max (next_id st2 c) (Suc i))\<rparr>))"

text \<open>\<open>UPDATE\<close> of the row with the instance's primary key: \<open>auto_now\<close> stamps \<open>updated_at\<close>.\<close>

definition update_row :: "base_model \<Rightarrow> world \<Rightarrow> unit outcome" where
  "update_row inst st =
     (case timezone_now st of (t, st1) \<Rightarrow>
        let c = cls inst;
            inst1 = inst\<lparr>updated_at := Some t\<rparr>
        in if ext_id_taken inst1 (tables st1 c) then (Inl IntegrityError, inst1, st1)
           else (Inr (), inst1,
                 st1\<lparr>tables := (tables st1)(c := map (\<lambda>r. if pk r = pk inst1 then inst1 else r) (tables st1 c))\<rparr>))"

text \<open>
  \<open>super().save()\<close>, the \<open>save\<close> of \<open>models.Model\<close>: an instance whose primary key
  is the key of a stored row updates that row, any other instance is inserted.
\<close>

definition model_save :: "base_model \<Rightarrow> world \<Rightarrow> unit outcome" where
  "model_save inst st =
     (if pk inst \<noteq> None \<and> list_ex (\<lambda>r. pk r = pk inst) (tables st (cls inst))
      then update_row inst st else insert_row inst st)"

text \<open>\<open>BaseModel.save\<close>; \<open>generate_unique_ext(self)\<close> takes the default length 10.\<close>

definition save :: "base_model \<Rightarrow> world \<Rightarrow> unit outcome" where
  "save inst st =
     (if unset (ext_id inst) then
        (case generate_unique_ext inst 10 st of
           (Inl e, st1) \<Rightarrow> (Inl e, inst, st1)
         | (Inr candidate, st1) \<Rightarrow> model_save (inst\<lparr>ext_id := Some candidate\<rparr>) st1)
      else model_save inst st)"

subsection \<open>Audit log\<close>

text \<open>
  \<open>BaseModel.log_action\<close>. The argument \<open>user\<close> is \<open>None\<close> or a user, given by
  its primary key; \<open>user.pk\<close> on \<open>None\<close> raises \<open>AttributeError\<close> while the
  arguments of \<open>LogEntry.objects.log_action\<close> are evaluated, before anything is written.
  Django stamps \<open>action_time\<close> with \<open>timezone.now\<close> and keeps the first 200 characters
  of \<open>object_repr\<close>.
\<close>

definition log_action ::
  "nat option \<Rightarrow> action_flag \<Rightarrow> string option \<Rightarrow> bool \<Rightarrow> string option \<Rightarrow> base_model \<Rightarrow> world \<Rightarrow> unit outcome" where
  "log_action user flag msg admin cd inst st =
     (let cm = \<lparr>message = (case msg of None \<Rightarrow> [] | Some m \<Rightarrow> m), is_admin = admin, code = cd\<rparr>
      in case user of
           None \<Rightarrow> (Inl AttributeError, inst, st)
         | Some u \<Rightarrow>
             (case timezone_now st of (t, st1) \<Rightarrow>
                (Inr (), inst,
                 st1\<lparr>log_entries := log_entries st1 @
                    [\<lparr>action_time = t, user_id = u, content_type = cls inst, object_id = pk inst,
                      object_repr = take 200 (label inst), action_flag = flag,
                      change_message = cm\<rparr>]\<rparr>)))"

text \<open>
  \<open>BaseModel.all_logs\<close>: the entries of the instance's content type whose
  \<open>object_id\<close> is the instance's primary key, latest first. A lookup with \<open>None\<close> asks
  for a null column, which no entry written by \<open>log_action\<close> has.
\<close>

definition about :: "base_model \<Rightarrow> log_entry \<Rightarrow> bool" where
  "about inst e =
     (content_type e = cls inst \<and>
      (case pk inst of None \<Rightarrow> False | Some i \<Rightarrow> object_id e = Some i))"

definition all_logs :: "base_model \<Rightarrow> world \<Rightarrow> (log_entry list) outcome" where
  "all_logs inst st =
     (Inr (rev (sort_key action_time (filter (about inst) (log_entries st)))), inst, st)"

subsection \<open>Soft deletion\<close>

text \<open>\<open>BaseModel.delete\<close>; the argument is \<open>kwargs.pop('user', None)\<close>.\<close>

definition delete :: "nat option \<Rightarrow> base_model \<Rightarrow> world \<Rightarrow> unit outcome" where
  "delete user inst st =
     (case user of
        None \<Rightarrow> (Inl (ValueError ''User must be provided for logging delete action.''), inst, st)
      | Some u \<Rightarrow>
          (case timezone_now st of (t, st1) \<Rightarrow>
             let inst1 = inst\<lparr>deleted_at := Some t\<rparr>;
                 inst2 = inst1\<lparr>updated_user := user\<rparr>
             in case log_action (updated_user inst2) DELETION (Some ''Object soft deleted'') False None inst2 st1 of
                  (Inl e, inst3, st3) \<Rightarrow> (Inl e, inst3, st3)
                | (Inr _, inst3, st3) \<Rightarrow> save inst3 st3))"

text \<open>\<open>BaseModel.restore\<close>\<close>

definition restore :: "base_model \<Rightarrow> world \<Rightarrow> unit outcome" where
  "restore inst st =
     (let inst1 = inst\<lparr>deleted_at := None\<rparr>
      in case save inst1 st of
           (Inl e, inst2, st2) \<Rightarrow> (Inl e, inst2, st2)
         | (Inr _, inst2, st2) \<Rightarrow>
             log_action (updated_user inst2) CHANGE (Some ''Object restored'') False None inst2 st2)"

text \<open>\<open>BaseModel.is_deleted\<close>\<close>

definition is_deleted :: "base_model \<Rightarrow> world \<Rightarrow> bool outcome" where
  "is_deleted inst st = (Inr (deleted_at inst \<noteq> None), inst, st)"

subsection \<open>Notions used in the statements\<close>

text \<open>
  The candidate that the \<open>k\<close>-th attempt of \<open>generate_unique_ext\<close> draws: each attempt
  consumes \<open>length\<close> readings of the random oracle.
\<close>

definition candidate_at :: "int \<Rightarrow> world \<Rightarrow> nat \<Rightarrow> string" where
  "candidate_at len st k = fst (generate_ext len (st\<lparr>rng_reads := rng_reads st + k * nat len\<rparr>))"

text \<open>
  The test of \<open>generate_unique_ext\<close> seen from outside: some row that the soft-delete
  manager of the instance's model lists carries the candidate.
\<close>

definition collides :: "base_model \<Rightarrow> world \<Rightarrow> string \<Rightarrow> bool" where
  "collides inst st s = list_ex (\<lambda>r. ext_id r = Some s) (objects st (cls inst))"

text \<open>The fields of an instance that saving never writes.\<close>

definition same_base :: "base_model \<Rightarrow> base_model \<Rightarrow> bool" where
  "same_base a b \<longleftrightarrow> cls a = cls b \<and> label a = label b \<and> uid a = uid b \<and>
     deleted_at a = deleted_at b \<and> created_user a = created_user b \<and> updated_user a = updated_user b"

text \<open>
  The effect of a successful \<open>super().save()\<close> on the table of the instance's model:
  the row with the instance's primary key is replaced, or the instance is appended.
\<close>

definition stored :: "base_model \<Rightarrow> base_model list \<Rightarrow> base_model list \<Rightarrow> bool" where
  "stored inst' rows rows' \<longleftrightarrow>
     pk inst' \<noteq> None \<and> \<not> ext_id_taken inst' rows \<and>
     (if pk inst' \<in> pk ` set rows
      then rows' = map (\<lambda>r. if pk r = pk inst' then inst' else r) rows
      else rows' = rows @ [inst'])"

subsection \<open>A sample database\<close>

text \<open>
  Two temples, both active, and an architecture feature that was soft-deleted by a user
  whose account has since been removed (\<open>on_delete=SET_NULL\<close> cleared
  \<open>updated_user\<close>). Neither temple one nor the feature has an \<open>updated_user\<close>. The
  random oracle yields ten times 0, then ten times 1, and so on, so the first candidate
  is \<open>aaaaaaaaaa\<close> and the second \<open>bbbbbbbbbb\<close>; the clock starts at 100.
\<close>

definition temple_one :: base_model where
  "temple_one = \<lparr>pk = Some 1, cls = Temple, label = ''Chennakeshava'', uid = 11,
     ext_id = Some ''aaaaaaaaaa'', created_at = Some 5, updated_at = Some 5, deleted_at = None,
     created_user = None, updated_user = None\<rparr>"

definition temple_two :: base_model where
  "temple_two = \<lparr>pk = Some 2, cls = Temple, label = ''Hoysaleswara'', uid = 12,
     ext_id = Some ''temple0002'', created_at = Some 6, updated_at = Some 9, deleted_at = None,
     created_user = Some 4, updated_user = Some 4\<rparr>"

definition archived_feature :: base_model where
  "archived_feature = \<lparr>pk = Some 1, cls = ArchitectureFeature, label = ''Stellate plan'', uid = 15,
     ext_id = Some ''feature001'', created_at = Some 7, updated_at = Some 8, deleted_at = Some 8,
     created_user = None, updated_user = None\<rparr>"

text \<open>Two instances that were never saved; Django's default for \<open>ext_id\<close> is the empty string.\<close>

definition new_product :: base_model where
  "new_product = \<lparr>pk = None, cls = Product, label = ''Incense Set'', uid = 13,
     ext_id = Some [], created_at = None, updated_at = None, deleted_at = None,
     created_user = None, updated_user = None\<rparr>"

definition new_temple :: base_model where
  "new_temple = \<lparr>pk = None, cls = Temple, label = ''Kesava'', uid = 14,
     ext_id = Some [], created_at = None, updated_at = None, deleted_at = None,
     created_user = None, updated_user = None\<rparr>"

definition site :: world where
  "site = \<lparr>tables = (\<lambda>c. if c = Temple then [temple_one, temple_two]
                       else if c = ArchitectureFeature then [archived_feature] else []),
     next_id = (\<lambda>c. if c = Temple then 3 else if c = ArchitectureFeature then 2 else 1),
     log_entries = [], clock = (\<lambda>n. 100 + n), clock_reads = 0,
     rng = (\<lambda>n. n div 10), rng_reads = 0, recursion_limit = 3\<rparr>"

section \<open>Properties\<close>

subsection \<open>Candidates\<close>

lemma generate_chars_Suc:
  "generate_chars (Suc n) st =
     (fst (random_choice alphabet st) # fst (generate_chars n (snd (random_choice alphabet st))),
      snd (generate_chars n (snd (random_choice alphabet st))))"
  by (simp add: case_prod_unfold)

lemma generate_chars_world:
  "snd (generate_chars n st) = st\<lparr>rng_reads := rng_reads st + n\<rparr>"
  by (induction n arbitrary: st) (simp_all add: generate_chars_Suc random_choice_def del: generate_chars.simps(2))

lemma generate_chars_length: "length (fst (generate_chars n st)) = n"
  by (induction n arbitrary: st) (simp_all add: generate_chars_Suc del: generate_chars.simps(2))

lemma alphabet_nonempty: "length alphabet = 36"
  by (simp add: alphabet_def)

lemma random_choice_in: "xs \<noteq> [] \<Longrightarrow> fst (random_choice xs st) \<in> set xs"
  by (simp add: random_choice_def)

lemma generate_chars_alphabet: "set (fst (generate_chars n st)) \<subseteq> set alphabet"
proof (induction n arbitrary: st)
  case 0
  show ?case by simp
next
  case (Suc n)
  have ne: "alphabet \<noteq> []" using alphabet_nonempty by auto
  obtain c st1 where c: "random_choice alphabet st = (c, st1)" by (cases "random_choice alphabet st")
  obtain s st2 where s: "generate_chars n st1 = (s, st2)" by (cases "generate_chars n st1")
  have "c \<in> set alphabet" using random_choice_in[OF ne, of st] c by simp
  moreover have "set s \<subseteq> set alphabet" using Suc.IH[of st1] s by simp
  ultimately show ?case using c s by simp
qed

lemma generate_ext_shape:
  "int (length (fst (generate_ext len st))) = max 0 len \<and> set (fst (generate_ext len st)) \<subseteq> set alphabet"
  by (simp add: generate_ext_def generate_chars_length generate_chars_alphabet)

lemma candidate_at_shape:
  "int (length (candidate_at len st k)) = max 0 len \<and> set (candidate_at len st k) \<subseteq> set alphabet"
  unfolding candidate_at_def by (rule generate_ext_shape)

lemma objects_rng [simp]: "objects (st\<lparr>rng_reads := k\<rparr>) c = objects st c"
  by (simp add: objects_def)

lemma collides_iff:
  "collides inst st s \<longleftrightarrow> (\<exists>r\<in>set (tables st (cls inst)). deleted_at r = None \<and> ext_id r = Some s)"
  by (auto simp: collides_def objects_def list_ex_iff)

text \<open>
  \<open>generate_unique_ext\<close> returns the first candidate that does not collide, if one
  comes up before the recursion limit; it touches nothing but the random oracle and
  raises nothing but \<open>RecursionError\<close>.
\<close>

lemma generate_unique_ext_rec_char:
  "generate_unique_ext_rec d inst len st = (Inr s, st') \<longleftrightarrow>
   (\<exists>k<d. s = candidate_at len st k \<and> \<not> collides inst st s \<and>
          (\<forall>j<k. collides inst st (candidate_at len st j)) \<and>
          st' = st\<lparr>rng_reads := rng_reads st + Suc k * nat len\<rparr>)"
proof (induction d arbitrary: st)
  case 0
  show ?case by simp
next
  case (Suc d)
  let ?st1 = "st\<lparr>rng_reads := rng_reads st + nat len\<rparr>"
  have g: "generate_ext len st = (candidate_at len st 0, ?st1)"
    using generate_chars_world[of "nat len" st]
    by (simp add: candidate_at_def generate_ext_def prod_eq_iff)
  have shift: "\<And>k. candidate_at len ?st1 k = candidate_at len st (Suc k)"
    by (simp add: candidate_at_def ac_simps)
  have coll: "\<And>x. collides inst ?st1 x = collides inst st x"
    by (simp add: collides_def)
  show ?case
  proof (cases "collides inst st (candidate_at len st 0)")
    case False
    then have "generate_unique_ext_rec (Suc d) inst len st = (Inr (candidate_at len st 0), ?st1)"
      using g by (simp add: collides_def)
    moreover have "(\<exists>k<Suc d. s = candidate_at len st k \<and> \<not> collides inst st s \<and>
          (\<forall>j<k. collides inst st (candidate_at len st j)) \<and>
          st' = st\<lparr>rng_reads := rng_reads st + Suc k * nat len\<rparr>) \<longleftrightarrow>
          (s = candidate_at len st 0 \<and> st' = ?st1)" (is "?L \<longleftrightarrow> ?R")
    proof
      assume ?L
      then obtain k where k: "k < Suc d" "s = candidate_at len st k"
        "\<forall>j<k. collides inst st (candidate_at len st j)"
        "st' = st\<lparr>rng_reads := rng_reads st + Suc k * nat len\<rparr>" by blast
      have "k = 0" using k(3) False by (cases k) auto
      with k show ?R by simp
    next
      assume ?R
      with False show ?L by auto
    qed
    ultimately show ?thesis by auto
  next
    case True
    then have "generate_unique_ext_rec (Suc d) inst len st = generate_unique_ext_rec d inst len ?st1"
      using g by (simp add: collides_def)
    moreover have "(\<exists>k<Suc d. s = candidate_at len st k \<and> \<not> collides inst st s \<and>
          (\<forall>j<k. collides inst st (candidate_at len st j)) \<and>
          st' = st\<lparr>rng_reads := rng_reads st + Suc k * nat len\<rparr>) \<longleftrightarrow>
          (\<exists>k<d. s = candidate_at len ?st1 k \<and> \<not> collides inst ?st1 s \<and>
          (\<forall>j<k. collides inst ?st1 (candidate_at len ?st1 j)) \<and>
          st' = ?st1\<lparr>rng_reads := rng_reads ?st1 + Suc k * nat len\<rparr>)" (is "?L \<longleftrightarrow> ?R")
    proof
      assume ?L
      then obtain k where k: "k < Suc d" "s = candidate_at len st k" "\<not> collides inst st s"
        "\<forall>j<k. collides inst st (candidate_at len st j)"
        "st' = st\<lparr>rng_reads := rng_reads st + Suc k * nat len\<rparr>" by blast
      with True obtain k' where k': "k = Suc k'" by (cases k) auto
      show ?R
        apply (rule exI[of _ k'])
        using k k' by (auto simp: shift coll add.assoc)
    next
      assume ?R
      then obtain k where k: "k < d" "s = candidate_at len ?st1 k" "\<not> collides inst ?st1 s"
        "\<forall>j<k. collides inst ?st1 (candidate_at len ?st1 j)"
        "st' = ?st1\<lparr>rng_reads := rng_reads ?st1 + Suc k * nat len\<rparr>" by blast
      show ?L
        apply (rule exI[of _ "Suc k"])
        using k True apply (auto simp: shift coll add.assoc)
        subgoal for j by (cases j) auto
        done
    qed
    ultimately show ?thesis using Suc.IH[of ?st1] by simp
  qed
qed

lemma generate_unique_ext_char:
  "generate_unique_ext inst len st = (Inr s, st') \<longleftrightarrow>
   (\<exists>k<recursion_limit st. s = candidate_at len st k \<and> \<not> collides inst st s \<and>
          (\<forall>j<k. collides inst st (candidate_at len st j)) \<and>
          st' = st\<lparr>rng_reads := rng_reads st + Suc k * nat len\<rparr>)"
  unfolding generate_unique_ext_def by (rule generate_unique_ext_rec_char)

lemma generate_unique_ext_rec_world:
  "\<exists>k. snd (generate_unique_ext_rec d inst len st) = st\<lparr>rng_reads := k\<rparr>"
proof (induction d arbitrary: st)
  case 0
  have "st = st\<lparr>rng_reads := rng_reads st\<rparr>" by simp
  then show ?case by (metis generate_unique_ext_rec.simps(1) snd_conv)
next
  case (Suc d)
  let ?st1 = "st\<lparr>rng_reads := rng_reads st + nat len\<rparr>"
  have g: "snd (generate_ext len st) = ?st1"
    by (simp add: generate_ext_def generate_chars_world)
  obtain k where k: "snd (generate_unique_ext_rec d inst len ?st1) = ?st1\<lparr>rng_reads := k\<rparr>"
    using Suc.IH[of ?st1] by blast
  show ?case
  proof (cases "list_ex (\<lambda>r. ext_id r = Some (fst (generate_ext len st))) (objects ?st1 (cls inst))")
    case True
    then have "snd (generate_unique_ext_rec (Suc d) inst len st) = ?st1\<lparr>rng_reads := k\<rparr>"
      using g k by (simp add: case_prod_unfold)
    then show ?thesis by (intro exI[of _ k]) simp
  next
    case False
    then have "snd (generate_unique_ext_rec (Suc d) inst len st) = ?st1"
      using g by (simp add: case_prod_unfold)
    then show ?thesis by blast
  qed
qed

lemma generate_unique_ext_rec_error:
  "fst (generate_unique_ext_rec d inst len st) = Inl e \<Longrightarrow> e = RecursionError"
  by (induction d arbitrary: st) (auto simp: case_prod_unfold split: if_splits)

lemma generate_unique_ext_world:
  "\<exists>k. snd (generate_unique_ext inst len st) = st\<lparr>rng_reads := k\<rparr>"
  using generate_unique_ext_rec_world[of "recursion_limit st" inst len st]
  by (simp add: generate_unique_ext_def)

subsection \<open>What saving changes\<close>

lemma update_row_frame:
  assumes "update_row inst st = (r, inst', st')"
  shows "same_base inst inst' \<and> pk inst' = pk inst \<and> ext_id inst' = ext_id inst \<and>
         log_entries st' = log_entries st \<and> rng_reads st' = rng_reads st \<and>
         (\<forall>c. c \<noteq> cls inst \<longrightarrow> tables st' c = tables st c) \<and>
         (case r of Inl e \<Rightarrow> e = IntegrityError \<and> tables st' = tables st
          | Inr _ \<Rightarrow> \<not> ext_id_taken inst' (tables st (cls inst)) \<and>
                tables st' (cls inst) = map (\<lambda>r. if pk r = pk inst' then inst' else r) (tables st (cls inst)))"
  using assms
  by (auto simp: update_row_def timezone_now_def Let_def same_base_def ext_id_taken_def split: if_splits)

lemma insert_row_frame:
  assumes "insert_row inst st = (r, inst', st')"
  shows "same_base inst inst' \<and> (pk inst \<noteq> None \<longrightarrow> pk inst' = pk inst) \<and> ext_id inst' = ext_id inst \<and>
         log_entries st' = log_entries st \<and> rng_reads st' = rng_reads st \<and>
         (\<forall>c. c \<noteq> cls inst \<longrightarrow> tables st' c = tables st c) \<and>
         (case r of Inl e \<Rightarrow> e = IntegrityError \<and> tables st' = tables st \<and> pk inst' = pk inst
          | Inr _ \<Rightarrow> \<not> ext_id_taken inst' (tables st (cls inst)) \<and> pk inst' \<noteq> None \<and>
                pk inst' \<notin> pk ` set (tables st (cls inst)) \<and>
                tables st' (cls inst) = tables st (cls inst) @ [inst'])"
  using assms
  by (auto simp: insert_row_def timezone_now_def Let_def same_base_def ext_id_taken_def list_ex_iff image_iff
        split: if_splits option.splits) blast+

lemma model_save_frame:
  assumes "model_save inst st = (r, inst', st')"
  shows "same_base inst inst' \<and> (pk inst \<noteq> None \<longrightarrow> pk inst' = pk inst) \<and> ext_id inst' = ext_id inst \<and>
         log_entries st' = log_entries st \<and> rng_reads st' = rng_reads st \<and>
         (\<forall>c. c \<noteq> cls inst \<longrightarrow> tables st' c = tables st c) \<and>
         (case r of Inl e \<Rightarrow> e = IntegrityError \<and> tables st' = tables st \<and> pk inst' = pk inst
          | Inr _ \<Rightarrow> stored inst' (tables st (cls inst)) (tables st' (cls inst)))"
proof (cases "pk inst \<noteq> None \<and> list_ex (\<lambda>r. pk r = pk inst) (tables st (cls inst))")
  case True
  then have u: "update_row inst st = (r, inst', st')" using assms by (simp add: model_save_def)
  have "pk inst \<in> pk ` set (tables st (cls inst))" using True by (force simp: list_ex_iff image_iff)
  then show ?thesis using update_row_frame[OF u] True
    by (auto simp: stored_def split: sum.splits)
next
  case False
  then have i: "insert_row inst st = (r, inst', st')" using assms by (auto simp: model_save_def split: if_splits)
  show ?thesis using insert_row_frame[OF i]
    by (auto simp: stored_def split: sum.splits)
qed

lemma save_frame:
  assumes "save inst st = (r, inst', st')"
  shows "same_base inst inst' \<and> (pk inst \<noteq> None \<longrightarrow> pk inst' = pk inst) \<and>
         log_entries st' = log_entries st \<and>
         (\<forall>c. c \<noteq> cls inst \<longrightarrow> tables st' c = tables st c) \<and>
         (case r of Inl e \<Rightarrow> (e = IntegrityError \<or> e = RecursionError) \<and> tables st' = tables st \<and> pk inst' = pk inst
          | Inr _ \<Rightarrow> stored inst' (tables st (cls inst)) (tables st' (cls inst)))"
proof (cases "unset (ext_id inst)")
  case False
  then have "model_save inst st = (r, inst', st')" using assms by (simp add: save_def)
  from model_save_frame[OF this] show ?thesis by (auto split: sum.splits)
next
  case True
  obtain g st1 where g: "generate_unique_ext inst 10 st = (g, st1)"
    by (cases "generate_unique_ext inst 10 st")
  obtain k where k: "st1 = st\<lparr>rng_reads := k\<rparr>"
    using generate_unique_ext_world[of inst 10 st] g by auto
  show ?thesis
  proof (cases g)
    case (Inl e)
    have "e = RecursionError"
      using generate_unique_ext_rec_error[of "recursion_limit st" inst 10 st e] g Inl
      by (simp add: generate_unique_ext_def)
    then show ?thesis using assms True g k Inl by (auto simp: save_def same_base_def)
  next
    case (Inr s)
    then have "model_save (inst\<lparr>ext_id := Some s\<rparr>) st1 = (r, inst', st')"
      using assms True g by (simp add: save_def)
    from model_save_frame[OF this] show ?thesis using k
      by (auto simp: same_base_def split: sum.splits)
  qed
qed

lemma stored_keeps_rows:
  assumes "stored inst' rows rows'"
  shows "take (length rows) (map pk rows') = map pk rows \<and> inst' \<in> set rows'"
proof (cases "pk inst' \<in> pk ` set rows")
  case False
  then show ?thesis using assms by (simp add: stored_def)
next
  case True
  then have r: "rows' = map (\<lambda>r. if pk r = pk inst' then inst' else r) rows"
    using assms by (simp add: stored_def)
  have "map pk rows' = map pk rows" unfolding r by (induction rows) auto
  moreover have "inst' \<in> set rows'" unfolding r using True by (induction rows) auto
  ultimately show ?thesis by simp
qed

lemma save_keeps_rows:
  assumes "save inst st = (r, inst', st')"
  shows "take (length (tables st c)) (map pk (tables st' c)) = map pk (tables st c)"
proof (cases "c = cls inst")
  case False
  then show ?thesis using save_frame[OF assms] by simp
next
  case True
  show ?thesis
  proof (cases r)
    case (Inl e)
    then show ?thesis using save_frame[OF assms] by simp
  next
    case (Inr u)
    then have "stored inst' (tables st (cls inst)) (tables st' (cls inst))"
      using save_frame[OF assms] by simp
    from stored_keeps_rows[OF this] show ?thesis using True by simp
  qed
qed

lemma replace_row_unique:
  assumes "distinct (map pk rows)" "distinct (map ext_id rows)"
    and "\<forall>r\<in>set rows. pk r \<noteq> pk new \<longrightarrow> ext_id r \<noteq> ext_id new"
  shows "distinct (map ext_id (map (\<lambda>r. if pk r = pk new then new else r) rows))"
proof -
  define f where "f = (\<lambda>r. if pk r = pk new then new else r)"
  have f_hit: "\<And>r. pk r = pk new \<Longrightarrow> f r = new" and f_miss: "\<And>r. pk r \<noteq> pk new \<Longrightarrow> f r = r"
    by (simp_all add: f_def)
  have "distinct (map ext_id (map f rows))"
    using assms
  proof (induction rows)
    case Nil
    show ?case by simp
  next
    case (Cons x xs)
    have ih: "distinct (map ext_id (map f xs))" using Cons by simp
    show ?case
    proof (cases "pk x = pk new")
      case True
      then have others: "\<forall>r\<in>set xs. pk r \<noteq> pk new" using Cons.prems(1) by (auto simp: image_iff)
      then have same: "map f xs = xs" using f_miss by (induction xs) auto
      have "\<forall>r\<in>set xs. ext_id r \<noteq> ext_id new" using Cons.prems(3) others by simp
      then have "ext_id new \<notin> set (map ext_id xs)" by (auto simp: image_iff)
      then show ?thesis using f_hit[OF True] same Cons.prems(2) by simp
    next
      case False
      have "ext_id x \<notin> set (map ext_id (map f xs))"
      proof
        assume "ext_id x \<in> set (map ext_id (map f xs))"
        then obtain y where y: "y \<in> set xs" "ext_id x = ext_id (f y)" by auto
        show False
        proof (cases "pk y = pk new")
          case True
          then show ?thesis using y f_hit[OF True] False Cons.prems(3) by simp
        next
          case False
          then have "ext_id x = ext_id y" using y f_miss by simp
          then show ?thesis using y(1) Cons.prems(2) by (auto simp: image_iff)
        qed
      qed
      then show ?thesis using f_miss[OF False] ih by simp
    qed
  qed
  then show ?thesis by (simp only: f_def)
qed

lemma stored_keeps_unique:
  assumes "stored inst' rows rows'" "distinct (map pk rows)" "distinct (map ext_id rows)"
  shows "distinct (map pk rows') \<and> distinct (map ext_id rows')"
proof (cases "pk inst' \<in> pk ` set rows")
  case False
  then have r: "rows' = rows @ [inst']" and nt: "\<not> ext_id_taken inst' rows"
    using assms(1) by (simp_all add: stored_def)
  have "\<forall>r\<in>set rows. pk r \<noteq> pk inst'" using False by (auto simp: image_iff)
  then have "ext_id inst' \<notin> ext_id ` set rows" using nt by (force simp: ext_id_taken_def list_ex_iff)
  then show ?thesis using r False assms(2,3) by simp
next
  case True
  then have r: "rows' = map (\<lambda>r. if pk r = pk inst' then inst' else r) rows"
    and nt: "\<not> ext_id_taken inst' rows"
    using assms(1) by (simp_all add: stored_def)
  have o: "\<forall>r\<in>set rows. pk r \<noteq> pk inst' \<longrightarrow> ext_id r \<noteq> ext_id inst'"
    using nt by (auto simp: ext_id_taken_def list_ex_iff)
  have p: "map pk rows' = map pk rows" unfolding r by (induction rows) auto
  have "distinct (map ext_id rows')" unfolding r by (rule replace_row_unique[OF assms(2,3) o])
  then show ?thesis using p assms(2) by simp
qed

lemma save_keeps_unique:
  assumes "save inst st = (r, inst', st')" "distinct (map pk (tables st c))" "distinct (map ext_id (tables st c))"
  shows "distinct (map pk (tables st' c)) \<and> distinct (map ext_id (tables st' c))"
proof (cases "c = cls inst")
  case False
  then show ?thesis using save_frame[OF assms(1)] assms(2,3) by simp
next
  case True
  show ?thesis
  proof (cases r)
    case (Inl e)
    then show ?thesis using save_frame[OF assms(1)] assms(2,3) by simp
  next
    case (Inr u)
    then have "stored inst' (tables st c) (tables st' c)"
      using save_frame[OF assms(1)] True by simp
    from stored_keeps_unique[OF this assms(2,3)] show ?thesis .
  qed
qed

lemma replace_row_active:
  assumes "distinct (map pk rows)" "row \<in> set rows" "pk row = p" "deleted_at row = None"
    "deleted_at new \<noteq> None"
  shows "length (filter (\<lambda>r. deleted_at r = None) (map (\<lambda>r. if pk r = p then new else r) rows)) + 1
         = length (filter (\<lambda>r. deleted_at r = None) rows)"
  using assms
proof (induction rows)
  case Nil
  then show ?case by simp
next
  case (Cons x xs)
  show ?case
  proof (cases "x = row")
    case True
    then have "\<forall>r\<in>set xs. pk r \<noteq> p" using Cons.prems by (auto simp: image_iff)
    then have "map (\<lambda>r. if pk r = p then new else r) xs = xs" by (induction xs) auto
    then show ?thesis using True Cons.prems by simp
  next
    case False
    then have in_xs: "row \<in> set xs" using Cons.prems by simp
    then have "pk x \<noteq> p" using Cons.prems by force
    moreover have "length (filter (\<lambda>r. deleted_at r = None) (map (\<lambda>r. if pk r = p then new else r) xs)) + 1
         = length (filter (\<lambda>r. deleted_at r = None) xs)"
      using Cons.IH in_xs Cons.prems by simp
    ultimately show ?thesis by simp
  qed
qed

subsection \<open>Logging and deleting\<close>

lemma log_action_user:
  "log_action (Some u) flag msg admin cd inst st = (r, inst', st') \<Longrightarrow>
     r = Inr () \<and> inst' = inst \<and> tables st' = tables st \<and>
     log_entries st' = log_entries st @
        [\<lparr>action_time = clock st (clock_reads st), user_id = u, content_type = cls inst,
          object_id = pk inst, object_repr = take 200 (label inst), action_flag = flag,
          change_message = \<lparr>message = (case msg of None \<Rightarrow> [] | Some m \<Rightarrow> m), is_admin = admin, code = cd\<rparr>\<rparr>]"
  by (auto simp: log_action_def timezone_now_def Let_def)

lemma delete_save:
  assumes "delete (Some u) inst st = (r, inst', st')"
  shows "\<exists>st3. tables st3 = tables st \<and>
     save (inst\<lparr>deleted_at := Some (clock st (clock_reads st)), updated_user := Some u\<rparr>) st3 = (r, inst', st')"
proof -
  let ?t = "clock st (clock_reads st)"
  let ?st1 = "st\<lparr>clock_reads := Suc (clock_reads st)\<rparr>"
  let ?inst2 = "inst\<lparr>deleted_at := Some ?t, updated_user := Some u\<rparr>"
  obtain r3 inst3 st3 where l: "log_action (Some u) DELETION (Some ''Object soft deleted'') False None ?inst2 ?st1 = (r3, inst3, st3)"
    using prod_cases3 by blast
  note la = log_action_user[OF l]
  have "save ?inst2 st3 = (r, inst', st')"
    using assms l la by (simp add: delete_def timezone_now_def Let_def)
  then show ?thesis using la by auto
qed

text \<open>
  Where the instance has an \<open>updated_user\<close> and \<open>save\<close> succeeds, \<open>restore\<close> clears
  \<open>deleted_at\<close>, stores the instance and then appends one \<open>CHANGE\<close> entry with the
  message "Object restored", attributed to that user; \<open>updated_user\<close> is not written.
\<close>

lemma restore_with_updated_user:
  assumes "updated_user inst = Some u" "restore inst st = (r, inst', st')"
    and "save (inst\<lparr>deleted_at := None\<rparr>) st = (Inr (), inst2, st2)"
  shows "r = Inr () \<and> inst' = inst2 \<and> deleted_at inst' = None \<and> updated_user inst' = updated_user inst \<and>
     inst' \<in> set (tables st' (cls inst)) \<and>
     (\<exists>e. log_entries st' = log_entries st @ [e] \<and> action_flag e = CHANGE \<and>
          change_message e = \<lparr>message = ''Object restored'', is_admin = False, code = None\<rparr> \<and>
          user_id e = u \<and> content_type e = cls inst \<and> object_id e = pk inst')"
proof -
  note sf = save_frame[OF assms(3)]
  have u: "updated_user inst2 = Some u" "deleted_at inst2 = None" "log_entries st2 = log_entries st" "cls inst2 = cls inst"
    using sf assms(1) by (simp_all add: same_base_def)
  have l: "log_action (Some u) CHANGE (Some ''Object restored'') False None inst2 st2 = (r, inst', st')"
    using assms u by (simp add: restore_def Let_def)
  note la = log_action_user[OF l]
  have "inst2 \<in> set (tables st2 (cls inst))"
    using sf stored_keeps_rows[of inst2 "tables st (cls inst)" "tables st2 (cls inst)"] by simp
  then show ?thesis using la u assms(1) by simp
qed

section \<open>The claims\<close>

text \<open>
  Claim C1 says that the acceptance test of the external-id algorithm is inverted:
  that it retries when the candidate is unique and accepts only on a collision. The
  code does the opposite. In the sample database no product exists, so the first
  candidate \<open>aaaaaaaaaa\<close> is unique among the products and is returned after ten
  readings of the random oracle; for a new temple the same first candidate collides with
  temple one, and the function draws again and returns \<open>bbbbbbbbbb\<close>.
\<close>

theorem unique_candidate_accepted:
  "\<not> collides new_product site ''aaaaaaaaaa'' \<and>
   fst (generate_unique_ext new_product 10 site) = Inr ''aaaaaaaaaa'' \<and>
   rng_reads (snd (generate_unique_ext new_product 10 site)) = 10 \<and>
   collides new_temple site ''aaaaaaaaaa'' \<and>
   candidate_at 10 site 0 = ''aaaaaaaaaa'' \<and>
   fst (generate_unique_ext new_temple 10 site) = Inr ''bbbbbbbbbb'' \<and>
   rng_reads (snd (generate_unique_ext new_temple 10 site)) = 20"
  by code_simp

text \<open>
  Claim C1, amended: the acceptance test is not inverted. \<open>generate_unique_ext\<close>
  returns exactly the first drawn candidate that no row listed by the soft-delete manager
  of the instance's own model carries, having drawn a fresh candidate after each
  collision and only then; it raises \<open>RecursionError\<close> exactly when every candidate
  within the recursion limit collides.
\<close>

theorem generate_unique_ext_first_free:
  "(generate_unique_ext inst len st = (Inr s, st') \<longleftrightarrow>
      (\<exists>k<recursion_limit st. s = candidate_at len st k \<and> \<not> collides inst st s \<and>
          (\<forall>j<k. collides inst st (candidate_at len st j)) \<and>
          st' = st\<lparr>rng_reads := rng_reads st + Suc k * nat len\<rparr>)) \<and>
   (fst (generate_unique_ext inst len st) = Inl RecursionError \<longleftrightarrow>
      (\<forall>k<recursion_limit st. collides inst st (candidate_at len st k)))"
proof -
  let ?g = "generate_unique_ext inst len st"
  let ?free = "\<lambda>k. k < recursion_limit st \<and> \<not> collides inst st (candidate_at len st k)"
  have inr: "\<exists>s' w. ?g = (Inr s', w)" if k: "?free k" for k
  proof -
    define m where "m = (LEAST i. ?free i)"
    have m: "?free m" unfolding m_def using k by (rule LeastI)
    have least: "\<forall>j<m. collides inst st (candidate_at len st j)"
    proof (intro allI impI)
      fix j assume j: "j < m"
      show "collides inst st (candidate_at len st j)"
      proof (rule ccontr)
        assume "\<not> collides inst st (candidate_at len st j)"
        then have "?free j" using j m by simp
        then have "m \<le> j" unfolding m_def by (rule Least_le)
        with j show False by simp
      qed
    qed
    have "?g = (Inr (candidate_at len st m), st\<lparr>rng_reads := rng_reads st + Suc m * nat len\<rparr>)"
      using m least by (subst generate_unique_ext_char) blast
    then show ?thesis by blast
  qed
  have b: "fst ?g = Inl RecursionError \<longleftrightarrow> (\<forall>k<recursion_limit st. collides inst st (candidate_at len st k))"
  proof
    assume l: "fst ?g = Inl RecursionError"
    show "\<forall>k<recursion_limit st. collides inst st (candidate_at len st k)"
    proof (intro allI impI, rule ccontr)
      fix k assume "k < recursion_limit st" "\<not> collides inst st (candidate_at len st k)"
      then obtain s' w where "?g = (Inr s', w)" using inr[of k] by blast
      with l show False by simp
    qed
  next
    assume all: "\<forall>k<recursion_limit st. collides inst st (candidate_at len st k)"
    obtain x w where g: "?g = (x, w)" by (cases ?g)
    show "fst ?g = Inl RecursionError"
    proof (cases x)
      case (Inl e)
      then have "e = RecursionError"
        using generate_unique_ext_rec_error[of "recursion_limit st" inst len st e] g
        by (simp add: generate_unique_ext_def)
      then show ?thesis using g Inl by simp
    next
      case (Inr s')
      then obtain k where "k < recursion_limit st" "s' = candidate_at len st k" "\<not> collides inst st s'"
        using g generate_unique_ext_char[of inst len st s' w] by auto
      then show ?thesis using all by blast
    qed
  qed
  show ?thesis using generate_unique_ext_char[of inst len st s st'] b by blast
qed

text \<open>An instance of C1's theorem: the new temple gets the second candidate.\<close>

theorem generate_unique_ext_first_free_witness:
  "fst (generate_unique_ext new_temple 10 site) = Inr ''bbbbbbbbbb'' \<and>
   (\<exists>k<recursion_limit site. ''bbbbbbbbbb'' = candidate_at 10 site k \<and>
      \<not> collides new_temple site ''bbbbbbbbbb'' \<and>
      (\<forall>j<k. collides new_temple site (candidate_at 10 site j)))"
proof -
  let ?g = "generate_unique_ext new_temple 10 site"
  have f: "fst ?g = Inr ''bbbbbbbbbb''" by code_simp
  then have h: "?g = (Inr ''bbbbbbbbbb'', snd ?g)" by (simp add: prod_eq_iff)
  from generate_unique_ext_first_free[of new_temple 10 site "''bbbbbbbbbb''" "snd ?g", THEN conjunct1, THEN iffD1, OF h]
  show ?thesis using f by blast
qed

text \<open>
  Claim C2 says that the external id is unique across all records of all concrete
  types, because the algorithm checks a candidate globally. The check looks only at
  \<open>instance.__class__.objects\<close>, and each concrete model has a table and a uniqueness
  constraint of its own. Saving a new product in the sample database succeeds and gives
  it the external id \<open>aaaaaaaaaa\<close>, which temple one already has.
\<close>

theorem same_ext_id_in_two_models:
  "fst (save new_product site) = Inr () \<and>
   map ext_id (tables (snd (snd (save new_product site))) Product) = [Some ''aaaaaaaaaa''] \<and>
   map ext_id (tables (snd (snd (save new_product site))) Temple) = [Some ''aaaaaaaaaa'', Some ''temple0002'']"
  by code_simp

text \<open>
  Claim C2, amended: the external id is unique within each concrete model. The id that
  \<open>generate_unique_ext\<close> returns differs from the external id of every active row of the
  instance's own model, and \<open>save\<close> keeps the primary keys and the external ids of
  every table free of duplicates.
\<close>

theorem ext_id_unique_within_model:
  "(generate_unique_ext inst len st = (Inr s, st') \<longrightarrow>
      (\<forall>r\<in>set (tables st (cls inst)). deleted_at r = None \<longrightarrow> ext_id r \<noteq> Some s)) \<and>
   (save inst st = (r, inst', st'') \<and> distinct (map pk (tables st c)) \<and> distinct (map ext_id (tables st c)) \<longrightarrow>
      distinct (map pk (tables st'' c)) \<and> distinct (map ext_id (tables st'' c)))"
proof -
  have "\<forall>r\<in>set (tables st (cls inst)). deleted_at r = None \<longrightarrow> ext_id r \<noteq> Some s"
    if "generate_unique_ext inst len st = (Inr s, st')"
    using that generate_unique_ext_char[of inst len st s st'] by (auto simp: collides_iff)
  then show ?thesis using save_keeps_unique[of inst st r inst' st'' c] by blast
qed

text \<open>An instance of C2's theorem: saving the new temple in the sample database.\<close>

theorem ext_id_unique_within_model_witness:
  "fst (generate_unique_ext new_temple 10 site) = Inr ''bbbbbbbbbb'' \<and>
   Some ''bbbbbbbbbb'' \<notin> ext_id ` {r \<in> set (tables site Temple). deleted_at r = None} \<and>
   distinct (map pk (tables site Temple)) \<and> distinct (map ext_id (tables site Temple)) \<and>
   distinct (map pk (tables (snd (snd (save new_temple site))) Temple)) \<and>
   distinct (map ext_id (tables (snd (snd (save new_temple site))) Temple))"
proof -
  let ?g = "generate_unique_ext new_temple 10 site"
  let ?s = "save new_temple site"
  have f: "fst ?g = Inr ''bbbbbbbbbb''" by code_simp
  then have h: "?g = (Inr ''bbbbbbbbbb'', snd ?g)" by (simp add: prod_eq_iff)
  have e: "?s = (fst ?s, fst (snd ?s), snd (snd ?s))" by simp
  have d: "distinct (map pk (tables site Temple))" "distinct (map ext_id (tables site Temple))"
    by code_simp+
  have c: "cls new_temple = Temple" by (simp add: new_temple_def)
  note t = ext_id_unique_within_model[of new_temple 10 site "''bbbbbbbbbb''" "snd ?g"
      "fst ?s" "fst (snd ?s)" "snd (snd ?s)" Temple]
  have "\<forall>r\<in>set (tables site Temple). deleted_at r = None \<longrightarrow> ext_id r \<noteq> Some ''bbbbbbbbbb''"
    using t h c by simp
  then have "Some ''bbbbbbbbbb'' \<notin> ext_id ` {r \<in> set (tables site Temple). deleted_at r = None}"
    by auto
  moreover have "distinct (map pk (tables (snd (snd ?s)) Temple)) \<and>
      distinct (map ext_id (tables (snd (snd ?s)) Temple))"
    using t e d by blast
  ultimately show ?thesis using f d by blast
qed

text \<open>
  Claim C3: \<open>delete\<close> without an acting user fails (the code raises \<open>ValueError\<close>, the
  invalid-operation error of the specification) and changes nothing: the instance, and
  with it \<open>deleted_at\<close>, and the database are as before.
\<close>

theorem delete_without_user:
  "delete None inst st =
     (Inl (ValueError ''User must be provided for logging delete action.''), inst, st) \<and>
   deleted_at (fst (snd (delete None inst st))) = deleted_at inst"
  by (simp add: delete_def)

text \<open>
  Claim C4: with an acting user, \<open>delete\<close> sets \<open>deleted_at\<close> to the current time and
  \<open>updated_user\<close> to that user, appends exactly one log entry of kind \<open>DELETION\<close> with
  the message "Object soft deleted", and then saves: when the call returns, the instance
  is a row of its table. No row is removed: the primary keys that a table held are
  still there, in place.
\<close>

theorem delete_with_user:
  "delete (Some u) inst st = (r, inst', st') \<longrightarrow>
     deleted_at inst' = Some (clock st (clock_reads st)) \<and>
     updated_user inst' = Some u \<and>
     (\<exists>e. log_entries st' = log_entries st @ [e] \<and>
          action_flag e = DELETION \<and>
          change_message e = \<lparr>message = ''Object soft deleted'', is_admin = False, code = None\<rparr> \<and>
          user_id e = u \<and> content_type e = cls inst \<and> object_id e = pk inst) \<and>
     (r = Inr () \<longrightarrow> inst' \<in> set (tables st' (cls inst))) \<and>
     (\<forall>c. take (length (tables st c)) (map pk (tables st' c)) = map pk (tables st c))"
proof
  assume a: "delete (Some u) inst st = (r, inst', st')"
  let ?t = "clock st (clock_reads st)"
  let ?st1 = "st\<lparr>clock_reads := Suc (clock_reads st)\<rparr>"
  let ?inst2 = "inst\<lparr>deleted_at := Some ?t, updated_user := Some u\<rparr>"
  obtain r3 inst3 st3 where l: "log_action (Some u) DELETION (Some ''Object soft deleted'') False None ?inst2 ?st1 = (r3, inst3, st3)"
    using prod_cases3 by blast
  note la = log_action_user[OF l]
  have sv: "save ?inst2 st3 = (r, inst', st')"
    using a l la by (simp add: delete_def timezone_now_def Let_def)
  note sf = save_frame[OF sv]
  have 1: "deleted_at inst' = Some ?t" "updated_user inst' = Some u"
    using sf by (simp_all add: same_base_def)
  have 2: "\<exists>e. log_entries st' = log_entries st @ [e] \<and>
          action_flag e = DELETION \<and>
          change_message e = \<lparr>message = ''Object soft deleted'', is_admin = False, code = None\<rparr> \<and>
          user_id e = u \<and> content_type e = cls inst \<and> object_id e = pk inst"
    using sf la by simp
  have 3: "r = Inr () \<longrightarrow> inst' \<in> set (tables st' (cls inst))"
    using sf stored_keeps_rows[of inst' "tables st3 (cls inst)" "tables st' (cls inst)"] by auto
  have 4: "\<forall>c. take (length (tables st c)) (map pk (tables st' c)) = map pk (tables st c)"
    using save_keeps_rows[OF sv] la by simp
  show "deleted_at inst' = Some (clock st (clock_reads st)) \<and>
     updated_user inst' = Some u \<and>
     (\<exists>e. log_entries st' = log_entries st @ [e] \<and>
          action_flag e = DELETION \<and>
          change_message e = \<lparr>message = ''Object soft deleted'', is_admin = False, code = None\<rparr> \<and>
          user_id e = u \<and> content_type e = cls inst \<and> object_id e = pk inst) \<and>
     (r = Inr () \<longrightarrow> inst' \<in> set (tables st' (cls inst))) \<and>
     (\<forall>c. take (length (tables st c)) (map pk (tables st' c)) = map pk (tables st c))"
    using 1 2 3 4 by blast
qed

text \<open>An instance of C4's theorem: user 4 deletes temple one.\<close>

theorem delete_with_user_witness:
  "fst (delete (Some 4) temple_one site) = Inr () \<and>
   deleted_at (fst (snd (delete (Some 4) temple_one site))) = Some 100 \<and>
   updated_user (fst (snd (delete (Some 4) temple_one site))) = Some 4 \<and>
   (\<exists>e. log_entries (snd (snd (delete (Some 4) temple_one site))) = log_entries site @ [e] \<and>
        action_flag e = DELETION \<and> user_id e = 4 \<and> object_id e = Some 1) \<and>
   fst (snd (delete (Some 4) temple_one site)) \<in> set (tables (snd (snd (delete (Some 4) temple_one site))) Temple)"
proof -
  let ?d = "delete (Some 4) temple_one site"
  have e: "?d = (fst ?d, fst (snd ?d), snd (snd ?d))" by simp
  have ok: "fst ?d = Inr ()" by code_simp
  have t: "clock site (clock_reads site) = 100" by (simp add: site_def)
  have c: "cls temple_one = Temple" "pk temple_one = Some 1" by (simp_all add: temple_one_def)
  note w = delete_with_user[of 4 temple_one site "fst ?d" "fst (snd ?d)" "snd (snd ?d)", THEN mp, OF e]
  show ?thesis using w ok t c by auto
qed

text \<open>
  Claim C5 says that \<open>restore\<close>, for every record, clears \<open>deleted_at\<close>, persists and
  then appends a log entry "Object restored". For the soft-deleted feature of the sample
  database, whose \<open>updated_user\<close> is null, \<open>restore\<close> clears \<open>deleted_at\<close> and stores
  the row, and then raises \<open>AttributeError\<close> in \<open>log_action\<close>: no entry is written.
  \<open>delete\<close> guards against a missing user before it logs; \<open>restore\<close> does not.
\<close>

theorem restore_orphaned_record:
  "deleted_at archived_feature = Some 8 \<and> updated_user archived_feature = None \<and>
   fst (restore archived_feature site) = Inl AttributeError \<and>
   log_entries (snd (snd (restore archived_feature site))) = [] \<and>
   map deleted_at (tables (snd (snd (restore archived_feature site))) ArchitectureFeature) = [None]"
  by code_simp

text \<open>
  Claim C6: \<open>is_deleted\<close> returns true exactly when \<open>deleted_at\<close> holds a time, and
  leaves the instance and the database as they are.
\<close>

theorem is_deleted_iff:
  "is_deleted inst st = (Inr (\<exists>t. deleted_at inst = Some t), inst, st)"
  by (simp add: is_deleted_def)

text \<open>
  Claim C7: a candidate of \<open>generate_ext\<close> has exactly the requested length and only
  characters of the alphabet of lowercase letters and digits. \<open>save\<close> generates an
  external id only when the instance has none: an instance with an external id keeps it
  and no random reading is made; an instance without one either gets a string of 10
  characters of the alphabet, or generation fails and the field stays as it was. After
  a successful \<open>save\<close> the external id is set.
\<close>

theorem save_ext_id:
  "int (length (fst (generate_ext len st))) = max 0 len \<and>
   set (fst (generate_ext len st)) \<subseteq> set alphabet \<and>
   (save inst st = (r, inst', st') \<longrightarrow>
        (if unset (ext_id inst)
         then (r = Inl RecursionError \<and> ext_id inst' = ext_id inst) \<or>
              (\<exists>s. ext_id inst' = Some s \<and> length s = 10 \<and> set s \<subseteq> set alphabet)
         else ext_id inst' = ext_id inst \<and> rng_reads st' = rng_reads st) \<and>
        (r = Inr () \<longrightarrow> \<not> unset (ext_id inst')))"
proof -
  have main: "save inst st = (r, inst', st') \<longrightarrow>
       (if unset (ext_id inst)
        then (r = Inl RecursionError \<and> ext_id inst' = ext_id inst) \<or>
             (\<exists>s. ext_id inst' = Some s \<and> length s = 10 \<and> set s \<subseteq> set alphabet)
        else ext_id inst' = ext_id inst \<and> rng_reads st' = rng_reads st) \<and>
       (r = Inr () \<longrightarrow> \<not> unset (ext_id inst'))"
  proof
    assume a: "save inst st = (r, inst', st')"
    show "(if unset (ext_id inst)
        then (r = Inl RecursionError \<and> ext_id inst' = ext_id inst) \<or>
             (\<exists>s. ext_id inst' = Some s \<and> length s = 10 \<and> set s \<subseteq> set alphabet)
        else ext_id inst' = ext_id inst \<and> rng_reads st' = rng_reads st) \<and>
       (r = Inr () \<longrightarrow> \<not> unset (ext_id inst'))"
    proof (cases "unset (ext_id inst)")
      case False
      then have "model_save inst st = (r, inst', st')" using a by (simp add: save_def)
      from model_save_frame[OF this] show ?thesis using False by simp
    next
      case True
      obtain g st1 where g: "generate_unique_ext inst 10 st = (g, st1)"
        by (cases "generate_unique_ext inst 10 st")
      show ?thesis
      proof (cases g)
        case (Inl e)
        have "e = RecursionError"
          using generate_unique_ext_rec_error[of "recursion_limit st" inst 10 st e] g Inl
          by (simp add: generate_unique_ext_def)
        then show ?thesis using a True g Inl by (auto simp: save_def)
      next
        case (Inr s)
        then obtain k where "s = candidate_at 10 st k"
          using g generate_unique_ext_char[of inst 10 st s st1] by auto
        then have sh: "length s = 10" "set s \<subseteq> set alphabet"
          using candidate_at_shape[of 10 st k] by auto
        have "model_save (inst\<lparr>ext_id := Some s\<rparr>) st1 = (r, inst', st')"
          using a True g Inr by (simp add: save_def)
        from model_save_frame[OF this] have "ext_id inst' = Some s" by simp
        then show ?thesis using sh True by (auto simp: unset_def)
      qed
    qed
  qed
  show ?thesis using generate_ext_shape[of len st] main by blast
qed

text \<open>
  An instance of C7's theorem: the new product gets an id, temple one keeps its own.
\<close>

theorem save_ext_id_witness:
  "unset (ext_id new_product) \<and> fst (save new_product site) = Inr () \<and>
   (\<exists>s. ext_id (fst (snd (save new_product site))) = Some s \<and> length s = 10 \<and> set s \<subseteq> set alphabet) \<and>
   \<not> unset (ext_id temple_one) \<and>
   ext_id (fst (snd (save temple_one site))) = ext_id temple_one \<and>
   rng_reads (snd (snd (save temple_one site))) = rng_reads site"
proof -
  let ?p = "save new_product site"
  let ?t = "save temple_one site"
  have u: "unset (ext_id new_product)" "\<not> unset (ext_id temple_one)" by code_simp+
  have ok: "fst ?p = Inr ()" by code_simp
  have ep: "?p = (fst ?p, fst (snd ?p), snd (snd ?p))" and et: "?t = (fst ?t, fst (snd ?t), snd (snd ?t))"
    by simp_all
  note wp = save_ext_id[of 10 site new_product "fst ?p" "fst (snd ?p)" "snd (snd ?p)",
      THEN conjunct2, THEN conjunct2, THEN mp, OF ep]
  note wt = save_ext_id[of 10 site temple_one "fst ?t" "fst (snd ?t)" "snd (snd ?t)",
      THEN conjunct2, THEN conjunct2, THEN mp, OF et]
  show ?thesis using wp wt u ok by auto
qed

text \<open>
  Claim C8: the default manager lists exactly the rows whose \<open>deleted_at\<close> is null, by
  ascending id, and \<open>all_objects\<close> lists every row. After a successful soft deletion
  of an active stored row the default listing is one shorter and the unrestricted
  listing has the length it had; when all \<open>N\<close> rows of the table were active, these
  are \<open>N - 1\<close> and \<open>N\<close>.
\<close>

theorem default_listing_hides_soft_deleted:
  "mset (objects st c) = filter_mset (\<lambda>r. deleted_at r = None) (mset (tables st c)) \<and>
   sorted (map row_id (objects st c)) \<and>
   mset (all_objects st c) = mset (tables st c) \<and>
   sorted (map row_id (all_objects st c)) \<and>
   (distinct (map pk (tables st c)) \<and> row \<in> set (tables st c) \<and> deleted_at row = None \<and>
    pk row = Some i \<and> pk inst = Some i \<and> cls inst = c \<and>
    delete (Some u) inst st = (Inr (), inst', st') \<longrightarrow>
      length (objects st' c) + 1 = length (objects st c) \<and>
      length (all_objects st' c) = length (all_objects st c) \<and>
      ((\<forall>r\<in>set (tables st c). deleted_at r = None) \<longrightarrow>
         length (objects st' c) = length (tables st c) - 1 \<and>
         length (all_objects st' c) = length (tables st c)))"
proof -
  have 1: "mset (objects st c) = filter_mset (\<lambda>r. deleted_at r = None) (mset (tables st c))"
    by (simp add: objects_def)
  have 2: "sorted (map row_id (objects st c))" by (simp add: objects_def)
  have 3: "mset (all_objects st c) = mset (tables st c)" by (simp add: all_objects_def)
  have 4: "sorted (map row_id (all_objects st c))" by (simp add: all_objects_def)
  have 5: "length (objects st' c) + 1 = length (objects st c) \<and>
      length (all_objects st' c) = length (all_objects st c) \<and>
      ((\<forall>r\<in>set (tables st c). deleted_at r = None) \<longrightarrow>
         length (objects st' c) = length (tables st c) - 1 \<and>
         length (all_objects st' c) = length (tables st c))"
    if h: "distinct (map pk (tables st c))" "row \<in> set (tables st c)" "deleted_at row = None"
      "pk row = Some i" "pk inst = Some i" "cls inst = c"
      "delete (Some u) inst st = (Inr (), inst', st')"
  proof -
    let ?inst2 = "inst\<lparr>deleted_at := Some (clock st (clock_reads st)), updated_user := Some u\<rparr>"
    obtain st3 where st3: "tables st3 = tables st" "save ?inst2 st3 = (Inr (), inst', st')"
      using delete_save[OF h(7)] by blast
    note sf = save_frame[OF st3(2)]
    have pk': "pk inst' = Some i" using sf h(5) by simp
    have del: "deleted_at inst' \<noteq> None" using sf by (cases "deleted_at inst'") (auto simp: same_base_def)
    have "stored inst' (tables st c) (tables st' c)" using sf st3(1) h(6) by simp
    moreover have "pk inst' \<in> pk ` set (tables st c)" using pk' h(2,4) by force
    ultimately have t': "tables st' c = map (\<lambda>r. if pk r = Some i then inst' else r) (tables st c)"
      using pk' by (simp add: stored_def)
    have a: "length (objects st' c) + 1 = length (objects st c)"
      using replace_row_active[OF h(1) h(2) h(4) h(3) del] t' by (simp add: objects_def)
    have b: "length (all_objects st' c) = length (all_objects st c)"
      using t' by (simp add: all_objects_def)
    have c: "length (objects st c) = length (tables st c)" if "\<forall>r\<in>set (tables st c). deleted_at r = None"
      using that by (simp add: objects_def)
    show ?thesis using a b c by (auto simp: all_objects_def)
  qed
  show ?thesis using 1 2 3 4 5 by blast
qed

text \<open>An instance of C8's theorem: of the two temples, temple one is soft-deleted.\<close>

theorem default_listing_hides_soft_deleted_witness:
  "distinct (map pk (tables site Temple)) \<and> temple_one \<in> set (tables site Temple) \<and>
   deleted_at temple_one = None \<and> map deleted_at (tables site Temple) = [None, None] \<and>
   fst (delete (Some 4) temple_one site) = Inr () \<and> length (tables site Temple) = 2 \<and>
   length (objects (snd (snd (delete (Some 4) temple_one site))) Temple) = 1 \<and>
   length (all_objects (snd (snd (delete (Some 4) temple_one site))) Temple) = 2"
proof -
  let ?d = "delete (Some 4) temple_one site"
  have ok: "fst ?d = Inr ()" by code_simp
  then have e: "?d = (Inr (), fst (snd ?d), snd (snd ?d))" by (simp add: prod_eq_iff)
  have h: "distinct (map pk (tables site Temple))" "temple_one \<in> set (tables site Temple)"
    "deleted_at temple_one = None" "pk temple_one = Some 1" "cls temple_one = Temple"
    "\<forall>r\<in>set (tables site Temple). deleted_at r = None" "length (tables site Temple) = 2"
    "map deleted_at (tables site Temple) = [None, None]"
    by (simp_all add: site_def temple_one_def temple_two_def)
  note w = default_listing_hides_soft_deleted[of site Temple temple_one 1 temple_one 4
      "fst (snd ?d)" "snd (snd ?d)"]
  show ?thesis using w ok e h by simp
qed

text \<open>
  Claim C9: \<open>all_logs\<close> returns the log entries whose content type is the instance's
  model and whose object id is the instance's primary key, each as often as the log
  holds it, latest first, and leaves the instance and the database as they are.
\<close>

theorem all_logs_latest_first:
  "\<exists>logs. all_logs inst st = (Inr logs, inst, st) \<and>
     mset logs = filter_mset (\<lambda>e. content_type e = cls inst \<and> pk inst \<noteq> None \<and> object_id e = pk inst)
                   (mset (log_entries st)) \<and>
     sorted_wrt (\<lambda>a b. action_time b \<le> action_time a) logs"
proof -
  let ?xs = "filter (about inst) (log_entries st)"
  let ?logs = "rev (sort_key action_time ?xs)"
  have a: "about inst = (\<lambda>e. content_type e = cls inst \<and> pk inst \<noteq> None \<and> object_id e = pk inst)"
    by (auto simp: about_def fun_eq_iff split: option.splits)
  have "sorted (map action_time (sort_key action_time ?xs))" by simp
  then have "sorted_wrt (\<lambda>a b. action_time a \<le> action_time b) (sort_key action_time ?xs)"
    by (simp only: sorted_map)
  then have s: "sorted_wrt (\<lambda>a b. action_time b \<le> action_time a) ?logs"
    by (simp add: sorted_wrt_rev)
  have m: "mset ?logs = filter_mset (about inst) (mset (log_entries st))" by simp
  show ?thesis
    apply (rule exI[of _ ?logs])
    using s m by (simp add: all_logs_def a)
qed

text \<open>
  Claim C10: for an instance whose \<open>updated_user\<close> is null, \<open>restore\<close> never returns
  normally. \<open>deleted_at\<close> is cleared and no log entry is written; when the \<open>save\<close>
  inside succeeds, the exception is the \<open>AttributeError\<close> of \<open>user.pk\<close> in
  \<open>log_action\<close>, raised after the row has been stored.
\<close>

theorem restore_without_updated_user:
  "updated_user inst = None \<and> restore inst st = (r, inst', st') \<longrightarrow>
     (\<exists>e. r = Inl e) \<and> log_entries st' = log_entries st \<and> deleted_at inst' = None \<and>
     (fst (save (inst\<lparr>deleted_at := None\<rparr>) st) = Inr () \<longrightarrow>
        r = Inl AttributeError \<and> (inst', st') = snd (save (inst\<lparr>deleted_at := None\<rparr>) st))"
proof
  assume a: "updated_user inst = None \<and> restore inst st = (r, inst', st')"
  obtain r2 inst2 st2 where sv: "save (inst\<lparr>deleted_at := None\<rparr>) st = (r2, inst2, st2)"
    using prod_cases3 by blast
  note sf = save_frame[OF sv]
  have u: "updated_user inst2 = None" "deleted_at inst2 = None" "log_entries st2 = log_entries st"
    using sf a by (simp_all add: same_base_def)
  show "(\<exists>e. r = Inl e) \<and> log_entries st' = log_entries st \<and> deleted_at inst' = None \<and>
     (fst (save (inst\<lparr>deleted_at := None\<rparr>) st) = Inr () \<longrightarrow>
        r = Inl AttributeError \<and> (inst', st') = snd (save (inst\<lparr>deleted_at := None\<rparr>) st))"
  proof (cases r2)
    case (Inl e)
    then show ?thesis using a sv u by (auto simp: restore_def Let_def)
  next
    case (Inr x)
    then show ?thesis using a sv u by (auto simp: restore_def Let_def log_action_def)
  qed
qed

text \<open>An instance of C10's theorem: temple one has no \<open>updated_user\<close>.\<close>

theorem restore_without_updated_user_witness:
  "updated_user temple_one = None \<and>
   fst (save (temple_one\<lparr>deleted_at := None\<rparr>) site) = Inr () \<and>
   fst (restore temple_one site) = Inl AttributeError \<and>
   log_entries (snd (snd (restore temple_one site))) = log_entries site \<and>
   deleted_at (fst (snd (restore temple_one site))) = None"
proof -
  let ?r = "restore temple_one site"
  have u: "updated_user temple_one = None" by (simp add: temple_one_def)
  have e: "?r = (fst ?r, fst (snd ?r), snd (snd ?r))" by simp
  have ok: "fst (save (temple_one\<lparr>deleted_at := None\<rparr>) site) = Inr ()" by code_simp
  note w = restore_without_updated_user[of temple_one site "fst ?r" "fst (snd ?r)" "snd (snd ?r)", THEN mp, OF conjI[OF u e]]
  show ?thesis using w ok u by blast
qed

end
